theory Spec2Isabelle
  imports Complex_Main "HOL-Library.Log_Nat"
begin

section \<open>Errors\<close>

text \<open>
  Every failure of \<^verbatim>\<open>currency_exchange_rate.py\<close> is a \<^verbatim>\<open>raise SystemExit(msg)\<close>.
  The model keeps one constructor per raise site, carrying the values the message is
  formatted from, and \<open>kind\<close> maps each site to a class of the specification's taxonomy.
\<close>

type_synonym codepoint = nat
type_synonym pystr = "codepoint list"

datatype pyfloat = Finite rat | Infinite bool | NaN

datatype json =
    JNull
  | JBool bool
  | JInt int
  | JFloat pyfloat
  | JStr pystr
  | JList "json list"
  | JDict "(pystr \<times> json) list"

datatype error =
    CurrencyRequired pystr
  | CurrencyNot3Letters pystr pystr
  | BadDateFormat pystr pystr
  | NumDatesTooSmall
  | EndBeforeStart
  | NetworkFailure pystr
  | HttpFailure int pystr
  | InvalidJson
  | UnexpectedPayload json
  | ServiceFailure json
  | BatchArgsMissing
  | SingleArgsMissing

datatype error_kind = InvalidArgument | NetworkError | HttpError | ProtocolError | ServiceError

fun kind :: "error \<Rightarrow> error_kind" where
  "kind (CurrencyRequired _) = InvalidArgument"
| "kind (CurrencyNot3Letters _ _) = InvalidArgument"
| "kind (BadDateFormat _ _) = InvalidArgument"
| "kind NumDatesTooSmall = InvalidArgument"
| "kind EndBeforeStart = InvalidArgument"
| "kind (NetworkFailure _) = NetworkError"
| "kind (HttpFailure _ _) = HttpError"
| "kind InvalidJson = ProtocolError"
| "kind (UnexpectedPayload _) = ProtocolError"
| "kind (ServiceFailure _) = ServiceError"
| "kind BatchArgsMissing = InvalidArgument"
| "kind SingleArgsMissing = InvalidArgument"

section \<open>Floating point\<close>

text \<open>
  \<^verbatim>\<open>step = delta_days / (n - 1)\<close> and \<^verbatim>\<open>i * step\<close> are computed on IEEE binary64
  numbers. A finite double is modelled by the rational it denotes; \<open>fl\<close> rounds a
  rational to the nearest number with a 53-bit significand, ties to even (the exponent
  range is not bounded). \<open>py_round\<close> is Python's \<^verbatim>\<open>round(x)\<close> on a float: the
  nearest integer, ties to the even one.
\<close>

definition py_round :: "rat \<Rightarrow> int" where
  "py_round x =
     (let f = \<lfloor>x\<rfloor>; r = x - of_int f
      in if r < 1 / 2 then f else if 1 / 2 < r then f + 1 else if even f then f else f + 1)"

definition ilog2 :: "rat \<Rightarrow> int" where
  "ilog2 x =
     (let (p, q) = quotient_of x; k = bitlen p - bitlen q
      in if 2 powi k \<le> x then k else k - 1)"

definition fl :: "rat \<Rightarrow> rat" where
  "fl x =
     (if x = 0 then 0
      else let e = ilog2 \<bar>x\<bar> - 52 in of_int (py_round (x / 2 powi e)) * 2 powi e)"

definition float_of_int :: "int \<Rightarrow> rat" where
  "float_of_int i = fl (of_int i)"

definition int_truediv :: "int \<Rightarrow> int \<Rightarrow> rat" where
  "int_truediv a b = fl (of_int a / of_int b)"

definition float_mul :: "rat \<Rightarrow> rat \<Rightarrow> rat" where
  "float_mul a b = fl (a * b)"

section \<open>Dates\<close>

text \<open>
  Every \<^verbatim>\<open>datetime\<close> of the program comes from \<^verbatim>\<open>strptime(s, "%Y-%m-%d")\<close> or from
  adding whole days to such a value, so its time of day is midnight. It is modelled by
  its proleptic Gregorian ordinal (\<^verbatim>\<open>date.toordinal()\<close>): day 1 is 0001-01-01 and the
  last representable day, 9999-12-31, is 3652059. Then \<^verbatim>\<open>(end - start).days\<close> is the
  difference of the ordinals and \<^verbatim>\<open>d.date()\<close> is the ordinal itself.
\<close>

type_synonym datetime = int

definition is_datetime :: "datetime \<Rightarrow> bool" where
  "is_datetime d \<longleftrightarrow> 1 \<le> d \<and> d \<le> 3652059"

text \<open>
  The calendar arithmetic of CPython's \<^verbatim>\<open>datetime\<close> module (\<^verbatim>\<open>_is_leap\<close>,
  \<^verbatim>\<open>_days_before_year\<close>, \<^verbatim>\<open>_days_in_month\<close>, \<^verbatim>\<open>_days_before_month\<close>,
  \<^verbatim>\<open>_ymd2ord\<close>), which builds the ordinal of a year, month and day.
\<close>

definition is_leap :: "int \<Rightarrow> bool" where
  "is_leap y \<longleftrightarrow> y mod 4 = 0 \<and> (y mod 100 \<noteq> 0 \<or> y mod 400 = 0)"

definition days_before_year :: "int \<Rightarrow> int" where
  "days_before_year year =
     (let y = year - 1 in y * 365 + y div 4 - y div 100 + y div 400)"

definition days_in_month :: "int \<Rightarrow> int \<Rightarrow> int" where
  "days_in_month year month =
     (if month = 2 \<and> is_leap year then 29
      else [31, 28, 31, 30, 31, 30, 31, 31, 30, 31, 30, 31] ! nat (month - 1))"

definition days_before_month :: "int \<Rightarrow> int \<Rightarrow> int" where
  "days_before_month year month =
     [0, 31, 59, 90, 120, 151, 181, 212, 243, 273, 304, 334] ! nat (month - 1)
     + (if month > 2 \<and> is_leap year then 1 else 0)"

definition ymd2ord :: "int \<Rightarrow> int \<Rightarrow> int \<Rightarrow> datetime" where
  "ymd2ord year month day = days_before_year year + days_before_month year month + day"

section \<open>The date sampler\<close>

fun dedup_loop :: "datetime list \<Rightarrow> int set \<Rightarrow> datetime list \<Rightarrow> datetime list" where
  "dedup_loop [] seen out = out"
| "dedup_loop (d # ds) seen out =
     (if d \<notin> seen then dedup_loop ds (insert d seen) (out @ [d])
      else dedup_loop ds seen out)"

definition rounded_dates :: "datetime \<Rightarrow> rat \<Rightarrow> int \<Rightarrow> datetime list" where
  "rounded_dates start step n =
     map (\<lambda>i. start + py_round (float_mul (float_of_int i) step)) [0..n - 1]"

definition evenly_spaced_dates :: "datetime \<Rightarrow> datetime \<Rightarrow> int \<Rightarrow> error + datetime list" where
  "evenly_spaced_dates start end' n =
     (if n < 2 then Inl NumDatesTooSmall
      else let delta_days = end' - start
        in if delta_days < 0 then Inl EndBeforeStart
        else if n = 2 then Inr [start, end']
        else let step = int_truediv delta_days (n - 1);
                 ds = rounded_dates start step n;
                 ds = ds[0 := start];
                 ds = ds[length ds - 1 := end']
             in Inr (dedup_loop ds {} []))"

text \<open>
  After the loop has filled \<open>ds\<close> and the first and last entries have been overwritten,
  the entry at index \<open>i\<close> is \<open>forced start end' step n i\<close>.
\<close>

definition forced :: "datetime \<Rightarrow> datetime \<Rightarrow> rat \<Rightarrow> int \<Rightarrow> int \<Rightarrow> datetime" where
  "forced start e step n i =
     (if i = n - 1 then e else start + py_round (float_mul (float_of_int i) step))"

section \<open>Strings\<close>

text \<open>
  A Python \<^verbatim>\<open>str\<close> is the list of its code points. On ASCII the tables of
  \<^verbatim>\<open>str.isspace\<close>, \<^verbatim>\<open>str.isalpha\<close>, \<^verbatim>\<open>str.upper\<close> and of the decimal digits are
  written out; beyond ASCII they are those of the interpreter's Unicode database, which
  is a parameter \<open>U\<close> of the model (\<^verbatim>\<open>upper\<close> may map one code point to several).
\<close>

definition str :: "string \<Rightarrow> pystr" where
  "str s = map of_char s"

record unicode =
  isspace_tab :: "codepoint \<Rightarrow> bool"
  isalpha_tab :: "codepoint \<Rightarrow> bool"
  upper_tab :: "codepoint \<Rightarrow> pystr"
  decimal_tab :: "codepoint \<Rightarrow> nat option"

definition ascii_only :: unicode where
  "ascii_only =
     \<lparr>isspace_tab = (\<lambda>c. False), isalpha_tab = (\<lambda>c. False),
      upper_tab = (\<lambda>c. [c]), decimal_tab = (\<lambda>c. None)\<rparr>"

definition isspace :: "unicode \<Rightarrow> codepoint \<Rightarrow> bool" where
  "isspace U c =
     (if c < 128 then (9 \<le> c \<and> c \<le> 13) \<or> (28 \<le> c \<and> c \<le> 32) else isspace_tab U c)"

definition isalpha_char :: "unicode \<Rightarrow> codepoint \<Rightarrow> bool" where
  "isalpha_char U c =
     (if c < 128 then (65 \<le> c \<and> c \<le> 90) \<or> (97 \<le> c \<and> c \<le> 122) else isalpha_tab U c)"

definition upper_char :: "unicode \<Rightarrow> codepoint \<Rightarrow> pystr" where
  "upper_char U c =
     (if c < 128 then [if 97 \<le> c \<and> c \<le> 122 then c - 32 else c] else upper_tab U c)"

definition digit :: "unicode \<Rightarrow> codepoint \<Rightarrow> nat option" where
  "digit U c =
     (if c < 128 then (if 48 \<le> c \<and> c \<le> 57 then Some (c - 48) else None)
      else decimal_tab U c)"

definition lstrip :: "(codepoint \<Rightarrow> bool) \<Rightarrow> pystr \<Rightarrow> pystr" where
  "lstrip P s = dropWhile P s"

definition rstrip :: "(codepoint \<Rightarrow> bool) \<Rightarrow> pystr \<Rightarrow> pystr" where
  "rstrip P s = rev (dropWhile P (rev s))"

definition strip :: "unicode \<Rightarrow> pystr \<Rightarrow> pystr" where
  "strip U s = rstrip (isspace U) (lstrip (isspace U) s)"

definition upper :: "unicode \<Rightarrow> pystr \<Rightarrow> pystr" where
  "upper U s = concat (map (upper_char U) s)"

definition isalpha :: "unicode \<Rightarrow> pystr \<Rightarrow> bool" where
  "isalpha U s \<longleftrightarrow> s \<noteq> [] \<and> list_all (isalpha_char U) s"

section \<open>The validator\<close>

definition validate_currency :: "unicode \<Rightarrow> pystr \<Rightarrow> pystr \<Rightarrow> error + pystr" where
  "validate_currency U code field =
     (if code = [] then Inl (CurrencyRequired field)
      else let code = upper U (strip U code)
        in if length code \<noteq> 3 \<or> \<not> isalpha U code then Inl (CurrencyNot3Letters field code)
           else Inr code)"

text \<open>
  \<^verbatim>\<open>datetime.strptime(date_str, "%Y-%m-%d")\<close> compiles the format to the regular
  expression \<^verbatim>\<open>(?P<Y>\d\d\d\d)-(?P<m>1[0-2]|0[1-9]|[1-9])-(?P<d>3[0-1]|[1-2]\d|0[1-9]|[1-9]| [1-9])\<close>
  (CPython's \<^verbatim>\<open>_strptime.py\<close>), matches it at the start of the string, raises
  \<^verbatim>\<open>ValueError\<close> when the match fails or does not reach the end of the string, and
  builds the date from the three numbers, which raises \<^verbatim>\<open>ValueError\<close> when they are
  not a calendar date of the years 1 to 9999. The alternatives of a group are tried in
  order; \<^verbatim>\<open>\d\<close> is any decimal digit.
\<close>

definition match_year :: "unicode \<Rightarrow> pystr \<Rightarrow> (int \<times> pystr) option" where
  "match_year U s =
     (case s of
        a # b # c # d # rest \<Rightarrow>
          (case (digit U a, digit U b, digit U c, digit U d) of
             (Some p, Some q, Some r, Some t) \<Rightarrow> Some (int (1000 * p + 100 * q + 10 * r + t), rest)
           | _ \<Rightarrow> None)
      | _ \<Rightarrow> None)"

definition in_range :: "codepoint \<Rightarrow> codepoint \<Rightarrow> codepoint \<Rightarrow> bool" where
  "in_range lo hi c \<longleftrightarrow> lo \<le> c \<and> c \<le> hi"

fun match_month :: "pystr \<Rightarrow> (int \<times> pystr) option" where
  "match_month (a # b # c # rest) =
     (if a = 49 \<and> in_range 48 50 b \<and> c = 45 then Some (10 + int (b - 48), rest)
      else if a = 48 \<and> in_range 49 57 b \<and> c = 45 then Some (int (b - 48), rest)
      else if in_range 49 57 a \<and> b = 45 then Some (int (a - 48), c # rest)
      else None)"
| "match_month [a, b] = (if in_range 49 57 a \<and> b = 45 then Some (int (a - 48), []) else None)"
| "match_month _ = None"

fun match_day :: "unicode \<Rightarrow> pystr \<Rightarrow> (int \<times> pystr) option" where
  "match_day U (a # b # rest) =
     (if a = 51 \<and> in_range 48 49 b then Some (30 + int (b - 48), rest)
      else if in_range 49 50 a \<and> digit U b \<noteq> None then Some (10 * int (a - 48) + int (the (digit U b)), rest)
      else if a = 48 \<and> in_range 49 57 b then Some (int (b - 48), rest)
      else if in_range 49 57 a then Some (int (a - 48), b # rest)
      else if a = 32 \<and> in_range 49 57 b then Some (int (b - 48), rest)
      else None)"
| "match_day U [a] = (if in_range 49 57 a then Some (int (a - 48), []) else None)"
| "match_day U [] = None"

definition strptime :: "unicode \<Rightarrow> pystr \<Rightarrow> datetime option" where
  "strptime U s =
     (case match_year U s of
        None \<Rightarrow> None
      | Some (year, r1) \<Rightarrow>
          (case r1 of
             [] \<Rightarrow> None
           | h # r2 \<Rightarrow>
               if h \<noteq> 45 then None
               else (case match_month r2 of
                  None \<Rightarrow> None
                | Some (month, r3) \<Rightarrow>
                    (case match_day U r3 of
                       None \<Rightarrow> None
                     | Some (day, r4) \<Rightarrow>
                         if r4 \<noteq> [] then None
                         else if 1 \<le> year \<and> year \<le> 9999 \<and> 1 \<le> month \<and> month \<le> 12
                                 \<and> 1 \<le> day \<and> day \<le> days_in_month year month
                           then Some (ymd2ord year month day)
                           else None))))"

definition parse_date :: "unicode \<Rightarrow> pystr \<Rightarrow> pystr \<Rightarrow> error + datetime" where
  "parse_date U date_str field =
     (case strptime U date_str of
        Some d \<Rightarrow> Inr d
      | None \<Rightarrow> Inl (BadDateFormat field date_str))"

text \<open>
  The wording of the specification: strict \<^verbatim>\<open>YYYY-MM-DD\<close> is four digits, a hyphen,
  two digits, a hyphen, two digits.
\<close>

definition ascii_digit :: "codepoint \<Rightarrow> bool" where
  "ascii_digit c \<longleftrightarrow> 48 \<le> c \<and> c \<le> 57"

fun strict_yyyy_mm_dd :: "pystr \<Rightarrow> bool" where
  "strict_yyyy_mm_dd [y1, y2, y3, y4, h1, m1, m2, h2, d1, d2] \<longleftrightarrow>
     ascii_digit y1 \<and> ascii_digit y2 \<and> ascii_digit y3 \<and> ascii_digit y4 \<and> h1 = 45 \<and>
     ascii_digit m1 \<and> ascii_digit m2 \<and> h2 = 45 \<and> ascii_digit d1 \<and> ascii_digit d2"
| "strict_yyyy_mm_dd _ \<longleftrightarrow> False"

text \<open>
  The forms of the three fields that \<open>strptime\<close> accepts, stated on the text: a year of
  four decimal digits; a month from 1 to 12 with an optional leading zero; a day with an
  optional leading zero or leading space.
\<close>

definition year_text :: "unicode \<Rightarrow> pystr \<Rightarrow> int \<Rightarrow> bool" where
  "year_text U t y \<longleftrightarrow>
     (\<exists>a b c d p q r s. t = [a, b, c, d] \<and> digit U a = Some p \<and> digit U b = Some q \<and>
        digit U c = Some r \<and> digit U d = Some s \<and> y = int (1000 * p + 100 * q + 10 * r + s))"

definition month_text :: "pystr \<Rightarrow> int \<Rightarrow> bool" where
  "month_text t m \<longleftrightarrow>
     (\<exists>k. in_range 1 9 k \<and> m = int k \<and> (t = [48 + k] \<or> t = [48, 48 + k])) \<or>
     (\<exists>k. k \<le> 2 \<and> m = 10 + int k \<and> t = [49, 48 + k])"

definition day_text :: "unicode \<Rightarrow> pystr \<Rightarrow> int \<Rightarrow> bool" where
  "day_text U t d \<longleftrightarrow>
     (\<exists>k. in_range 1 9 k \<and> d = int k \<and> (t = [48 + k] \<or> t = [48, 48 + k] \<or> t = [32, 48 + k])) \<or>
     (\<exists>a b k. in_range 1 2 a \<and> digit U b = Some k \<and> t = [48 + a, b] \<and> d = 10 * int a + int k) \<or>
     (\<exists>k. k \<le> 1 \<and> t = [51, 48 + k] \<and> d = 30 + int k)"

definition date_text :: "unicode \<Rightarrow> pystr \<Rightarrow> datetime \<Rightarrow> bool" where
  "date_text U s x \<longleftrightarrow>
     (\<exists>yt mt dt y m d. s = yt @ [45] @ mt @ [45] @ dt \<and>
        year_text U yt y \<and> month_text mt m \<and> day_text U dt d \<and>
        1 \<le> y \<and> y \<le> 9999 \<and> d \<le> days_in_month y m \<and> x = ymd2ord y m d)"

section \<open>Formatting a date\<close>


definition digits2 :: "int \<Rightarrow> pystr" where
  "digits2 k = [48 + nat (k div 10 mod 10), 48 + nat (k mod 10)]"


definition padded_year :: "int \<Rightarrow> pystr" where
  "padded_year year = digits2 (year div 100) @ digits2 year"


section \<open>The service client\<close>

text \<open>
  The state of a run: the files under the data directory, the entries of the error log,
  the lines printed, and the state of the outside world. A file holds the complete dump
  of a JSON value, or what was written of it when the dump was interrupted.
  \<^verbatim>\<open>requests.post\<close> is a parameter \<open>post\<close>: from the world, the URL and the API key it
  gives an exception or a response, and the next world. \<open>json_body\<close> is what
  \<^verbatim>\<open>resp.json()\<close> returns, \<open>None\<close> when it raises \<^verbatim>\<open>ValueError\<close>. A \<^verbatim>\<open>dict\<close> is the
  list of its items.

  Writing a file is a parameter \<open>write\<close> as well: it stands for \<^verbatim>\<open>mkdir\<close>, \<^verbatim>\<open>open\<close>,
  \<^verbatim>\<open>json.dump\<close> and the UTF-8 encoder. It succeeds, or raises before the file is
  touched (\<^verbatim>\<open>OSError\<close> from \<^verbatim>\<open>mkdir\<close> or \<^verbatim>\<open>open\<close>), or raises after the file has been
  opened for writing (\<^verbatim>\<open>OSError\<close> from a write, \<^verbatim>\<open>UnicodeEncodeError\<close> on a lone
  surrogate in the payload). These exceptions are not \<^verbatim>\<open>SystemExit\<close>.
\<close>

datatype exn = SystemExit error | OtherException pystr

datatype write_result = Written | OpenFailed pystr | DumpFailed pystr

datatype file_content = Dumped json | Truncated json

record response =
  ok :: bool
  status_code :: int
  text_body :: pystr
  json_body :: "json option"

datatype post_result = RequestException pystr | Response response

datatype printed =
    Warning datetime
  | Requesting pystr
  | Saved pystr
  | Failed datetime error
  | BatchHeader pystr pystr datetime datetime nat

record 'w state =
  files :: "pystr \<Rightarrow> file_content option"
  error_log :: "(pystr \<times> error) list"
  console :: "printed list"
  world :: 'w

type_synonym 'w requests_post = "'w \<Rightarrow> pystr \<Rightarrow> pystr \<Rightarrow> post_result \<times> 'w"

type_synonym 'w file_write = "'w \<Rightarrow> pystr \<Rightarrow> json \<Rightarrow> write_result \<times> 'w"

fun truthy :: "json \<Rightarrow> bool" where
  "truthy JNull = False"
| "truthy (JBool b) = b"
| "truthy (JInt i) = (i \<noteq> 0)"
| "truthy (JFloat f) = (f \<noteq> Finite 0)"
| "truthy (JStr s) = (s \<noteq> [])"
| "truthy (JList xs) = (xs \<noteq> [])"
| "truthy (JDict kvs) = (kvs \<noteq> [])"

definition dict_get :: "(pystr \<times> json) list \<Rightarrow> pystr \<Rightarrow> json" where
  "dict_get kvs k = (case map_of kvs k of None \<Rightarrow> JNull | Some v \<Rightarrow> v)"

definition logger_error :: "pystr \<Rightarrow> error \<Rightarrow> 'w state \<Rightarrow> 'w state" where
  "logger_error url e st = st\<lparr>error_log := error_log st @ [(url, e)]\<rparr>"

definition py_print :: "printed \<Rightarrow> 'w state \<Rightarrow> 'w state" where
  "py_print line st = st\<lparr>console := console st @ [line]\<rparr>"

definition call_service ::
  "'w requests_post \<Rightarrow> pystr \<Rightarrow> pystr \<Rightarrow> 'w state \<Rightarrow> (error + json) \<times> 'w state" where
  "call_service post url api_key st =
     (let (r, w) = post (world st) url api_key; st = st\<lparr>world := w\<rparr>
      in case r of
           RequestException e \<Rightarrow>
             (Inl (NetworkFailure e), logger_error url (NetworkFailure e) st)
         | Response resp \<Rightarrow>
             if \<not> ok resp
             then (Inl (HttpFailure (status_code resp) (text_body resp)),
                   logger_error url (HttpFailure (status_code resp) (text_body resp)) st)
             else (case json_body resp of
                None \<Rightarrow> (Inl InvalidJson, logger_error url InvalidJson st)
              | Some payload \<Rightarrow>
                  (case payload of
                     JDict kvs \<Rightarrow>
                       (let err = dict_get kvs (str ''error'')
                        in if truthy err
                           then (Inl (ServiceFailure err), logger_error url (ServiceFailure err) st)
                           else (Inr payload, st))
                   | _ \<Rightarrow> (Inl (UnexpectedPayload payload),
                           logger_error url (UnexpectedPayload payload) st))))"

section \<open>Persistence and the orchestrator\<close>

definition warn_if_out_of_range :: "datetime \<Rightarrow> bool \<Rightarrow> 'w state \<Rightarrow> 'w state" where
  "warn_if_out_of_range d enabled st =
     (if \<not> enabled then st
      else if \<not> (ymd2ord 2025 1 1 \<le> d \<and> d \<le> ymd2ord 2025 9 15) then py_print (Warning d) st
      else st)"

definition build_url :: "pystr \<Rightarrow> pystr \<Rightarrow> pystr \<Rightarrow> pystr \<Rightarrow> pystr" where
  "build_url base_url from_cur to_cur date_str =
     (let q = str ''?from='' @ from_cur @ str ''&to='' @ to_cur;
          q = (if date_str \<noteq> [] then q @ str ''&date='' @ date_str else q)
      in rstrip (\<lambda>c. c = 47) base_url @ str ''/'' @ lstrip (\<lambda>c. c = 47) q)"

definition save_json ::
  "'w file_write \<Rightarrow> json \<Rightarrow> pystr \<Rightarrow> pystr \<Rightarrow> pystr \<Rightarrow> 'w state \<Rightarrow>
   (exn + pystr) \<times> 'w state" where
  "save_json write payload from_cur to_cur date_str st =
     (let fname = from_cur @ str ''_'' @ to_cur @ str ''_'' @ date_str @ str ''.json'';
          path = str ''data/'' @ fname;
          (r, w) = write (world st) path payload;
          st = st\<lparr>world := w\<rparr>
      in case r of
           Written \<Rightarrow> (Inr path, st\<lparr>files := (files st)(path \<mapsto> Dumped payload)\<rparr>)
         | OpenFailed x \<Rightarrow> (Inl (OtherException x), st)
         | DumpFailed x \<Rightarrow>
             (Inl (OtherException x), st\<lparr>files := (files st)(path \<mapsto> Truncated payload)\<rparr>))"

definition run_one ::
  "unicode \<Rightarrow> 'w requests_post \<Rightarrow> 'w file_write \<Rightarrow> pystr \<Rightarrow> pystr \<Rightarrow> pystr \<Rightarrow> pystr \<Rightarrow>
   pystr \<Rightarrow> bool \<Rightarrow> 'w state \<Rightarrow> (exn + unit) \<times> 'w state" where
  "run_one U post write from_cur to_cur date_str base_url api_key warn_range st =
     (case validate_currency U from_cur (str ''From'') of
        Inl e \<Rightarrow> (Inl (SystemExit e), st)
      | Inr f \<Rightarrow>
     (case validate_currency U to_cur (str ''To'') of
        Inl e \<Rightarrow> (Inl (SystemExit e), st)
      | Inr t \<Rightarrow>
     (case parse_date U date_str (str ''date'') of
        Inl e \<Rightarrow> (Inl (SystemExit e), st)
      | Inr d \<Rightarrow>
          (let st = warn_if_out_of_range d warn_range st;
               url = build_url base_url f t date_str;
               st = py_print (Requesting url) st;
               (r, st) = call_service post url api_key st
           in case r of
                Inl e \<Rightarrow> (Inl (SystemExit e), st)
              | Inr payload \<Rightarrow>
                  (case save_json write payload f t date_str st of
                     (Inl x, st) \<Rightarrow> (Inl x, st)
                   | (Inr save_path, st) \<Rightarrow> (Inr (), py_print (Saved save_path) st))))))"



record args =
  from_cur :: "pystr option"
  to_cur :: "pystr option"
  date :: "pystr option"
  start_date :: "pystr option"
  end_date :: "pystr option"
  num_dates :: "int option"
  base_url :: pystr
  api_key :: pystr
  warn_outside_range :: bool




text \<open>
  A service that answers every request with status 200 and the given JSON body, and one
  that answers with the given status (\<^verbatim>\<open>resp.ok\<close> is false for the statuses from 400 to
  599). A file system that takes every file; the write fails in the encoder when the
  payload holds a lone surrogate (the code points from D800 to DFFF).
\<close>

definition replies :: "json \<Rightarrow> unit requests_post" where
  "replies payload w url key =
     (Response \<lparr>ok = True, status_code = 200, text_body = [], json_body = Some payload\<rparr>, w)"

definition replies_status :: "int \<Rightarrow> json \<Rightarrow> unit requests_post" where
  "replies_status status payload w url key =
     (Response \<lparr>ok = \<not> (400 \<le> status \<and> status < 600), status_code = status, text_body = [],
                 json_body = Some payload\<rparr>, w)"

definition is_surrogate :: "codepoint \<Rightarrow> bool" where
  "is_surrogate c \<longleftrightarrow> 55296 \<le> c \<and> c \<le> 57343"

primrec has_surrogate :: "json \<Rightarrow> bool" where
  "has_surrogate JNull = False"
| "has_surrogate (JBool b) = False"
| "has_surrogate (JInt i) = False"
| "has_surrogate (JFloat f) = False"
| "has_surrogate (JStr s) = list_ex is_surrogate s"
| "has_surrogate (JList xs) = list_ex id (map has_surrogate xs)"
| "has_surrogate (JDict kvs) =
     list_ex (\<lambda>(k, b). list_ex is_surrogate k \<or> b) (map (map_prod id has_surrogate) kvs)"

definition utf8_files :: "unit file_write" where
  "utf8_files w path payload =
     (if has_surrogate payload then (DumpFailed (str ''UnicodeEncodeError''), w)
      else (Written, w))"

definition empty_state :: "unit state" where
  "empty_state = \<lparr>files = Map.empty, error_log = [], console = [], world = ()\<rparr>"


definition invalid_currency_envelope :: json where
  "invalid_currency_envelope =
     JDict [(str ''error'', JStr (str ''invalid currency'')), (str ''data'', JNull)]"


section \<open>Rounding\<close>

lemma py_round_bounds: "of_int (py_round x) \<le> x + 1/2 \<and> x - 1/2 \<le> of_int (py_round x)"
  unfolding py_round_def Let_def
  by (auto; linarith)

lemma py_round_of_int [simp]: "py_round (of_int k) = k"
  by (simp add: py_round_def)

lemma py_round_mono: assumes "x \<le> y" shows "py_round x \<le> py_round y"
proof (cases "\<lfloor>x\<rfloor> = \<lfloor>y\<rfloor>")
  case True
  then show ?thesis using assms unfolding py_round_def Let_def by auto
next
  case False
  with assms have "\<lfloor>x\<rfloor> < \<lfloor>y\<rfloor>" using floor_mono[OF assms] by linarith
  moreover have "py_round x \<le> \<lfloor>x\<rfloor> + 1" unfolding py_round_def Let_def by auto
  moreover have "\<lfloor>y\<rfloor> \<le> py_round y" unfolding py_round_def Let_def by auto
  ultimately show ?thesis by linarith
qed

lemma two_powi_bitlen:
  assumes "0 < p"
  shows "(2::rat) powi (bitlen p - 1) \<le> of_int p" "of_int p < (2::rat) powi (bitlen p)"
proof -
  from bitlen_bounds[OF assms] have a: "2 ^ nat (bitlen p - 1) \<le> p" and b: "p < 2 ^ nat (bitlen p)" by auto
  have pos: "1 \<le> bitlen p" using assms bitlen_eq_zero_iff[of p] bitlen_nonneg[of p] by linarith
  have "(2::rat) powi (bitlen p - 1) = 2 ^ nat (bitlen p - 1)" using pos by (simp add: power_int_def)
  also have "\<dots> = of_int (2 ^ nat (bitlen p - 1))" by simp
  also have "\<dots> \<le> of_int p" using a by (simp only: of_int_le_iff)
  finally show "(2::rat) powi (bitlen p - 1) \<le> of_int p" .
  have "(of_int p :: rat) < of_int (2 ^ nat (bitlen p))" using b by (simp only: of_int_less_iff)
  also have "\<dots> = 2 powi (bitlen p)" using pos by (simp add: power_int_def)
  finally show "of_int p < (2::rat) powi (bitlen p)" .
qed

lemma two_powi_pos: "0 < (2::rat) powi k"
  by simp

lemma two_powi_Suc: "(2::rat) powi (k + 1) = 2 * 2 powi k"
  by (simp add: power_int_add)

lemma two_powi_mono: "k \<le> l \<Longrightarrow> (2::rat) powi k \<le> 2 powi l"
  by (rule power_int_increasing) simp_all

lemma ilog2_bounds:
  assumes "0 < x"
  shows "2 powi ilog2 x \<le> x \<and> x < 2 powi (ilog2 x + 1)"
proof -
  obtain p q where pq: "quotient_of x = (p, q)" by (cases "quotient_of x")
  have q: "0 < q" using quotient_of_denom_pos[OF pq] .
  have x: "x = of_int p / of_int q" using quotient_of_div[OF pq] .
  have p: "0 < p" using assms q x by (simp add: zero_less_divide_iff)
  define k where "k = bitlen p - bitlen q"
  note P = two_powi_bitlen[OF p] and Q = two_powi_bitlen[OF q]
  have qpos: "(0::rat) < of_int q" using q by simp
  have lo: "2 powi (k - 1) \<le> x"
  proof -
    have "(2::rat) powi (k - 1) * of_int q \<le> 2 powi (k - 1) * 2 powi (bitlen q)"
      using Q(2) by (simp)
    also have "\<dots> = 2 powi (bitlen p - 1)" by (simp add: k_def flip: power_int_add)
    also have "\<dots> \<le> of_int p" using P(1) .
    finally show ?thesis using qpos by (simp add: x pos_le_divide_eq)
  qed
  have hi: "x < 2 powi (k + 1)"
  proof -
    have "of_int p < (2::rat) powi (bitlen p)" using P(2) .
    also have "\<dots> = 2 powi (k + 1) * 2 powi (bitlen q - 1)" by (simp add: k_def flip: power_int_add)
    also have "\<dots> \<le> 2 powi (k + 1) * of_int q" using Q(1) by simp
    finally show ?thesis using qpos by (simp add: x pos_divide_less_eq)
  qed
  have il: "ilog2 x = (if 2 powi k \<le> x then k else k - 1)"
    by (simp add: ilog2_def pq k_def)
  show ?thesis
  proof (cases "2 powi k \<le> x")
    case True
    then show ?thesis using hi il by simp
  next
    case False
    then show ?thesis using lo il by simp
  qed
qed


lemma fl_zero [simp]: "fl 0 = 0" by (simp add: fl_def)

lemma fl_pos_eq:
  assumes "0 < x"
  shows "fl x = of_int (py_round (x / 2 powi (ilog2 x - 52))) * 2 powi (ilog2 x - 52)"
  using assms by (simp add: fl_def Let_def)

lemma mant_bounds:
  assumes "0 < x"
  shows "2 ^ 52 \<le> x / 2 powi (ilog2 x - 52)" "x / 2 powi (ilog2 x - 52) < 2 ^ 53"
proof -
  have e: "(2::rat) powi (ilog2 x) = 2 ^ 52 * 2 powi (ilog2 x - 52)"
    "(2::rat) powi (ilog2 x + 1) = 2 ^ 53 * 2 powi (ilog2 x - 52)"
    by (simp_all add: power_int_diff power_int_add)
  from ilog2_bounds[OF assms] show "2 ^ 52 \<le> x / 2 powi (ilog2 x - 52)"
    unfolding e by (simp add: pos_le_divide_eq)
  from ilog2_bounds[OF assms] show "x / 2 powi (ilog2 x - 52) < 2 ^ 53"
    unfolding e by (simp add: pos_divide_less_eq)
qed

lemma fl_binade:
  assumes "0 < x"
  shows "2 powi ilog2 x \<le> fl x" "fl x \<le> 2 powi (ilog2 x + 1)"
proof -
  let ?e = "ilog2 x - 52"
  let ?m = "x / 2 powi ?e"
  have e: "(2::rat) powi (ilog2 x) = 2 ^ 52 * 2 powi ?e"
    "(2::rat) powi (ilog2 x + 1) = 2 ^ 53 * 2 powi ?e"
    by (simp_all add: power_int_diff power_int_add)
  have "py_round (of_int (2 ^ 52)) \<le> py_round ?m"
    using mant_bounds(1)[OF assms] by (intro py_round_mono) simp
  then have lo: "(2::int) ^ 52 \<le> py_round ?m" by (simp only: py_round_of_int)
  have "py_round ?m \<le> py_round (of_int (2 ^ 53))"
    using mant_bounds(2)[OF assms] by (intro py_round_mono) simp
  then have hi: "py_round ?m \<le> (2::int) ^ 53" by (simp only: py_round_of_int)
  have "(2::rat) ^ 52 \<le> of_int (py_round ?m)" using lo by (metis of_int_le_iff of_int_numeral of_int_power)
  then show "2 powi ilog2 x \<le> fl x"
    unfolding e fl_pos_eq[OF assms] by (simp)
  have "of_int (py_round ?m) \<le> (2::rat) ^ 53" using hi by (metis of_int_le_iff of_int_numeral of_int_power)
  then show "fl x \<le> 2 powi (ilog2 x + 1)"
    unfolding e fl_pos_eq[OF assms] by (simp)
qed

lemma fl_pos: "0 < x \<Longrightarrow> 0 < fl x"
  using fl_binade(1)[of x] two_powi_pos[of "ilog2 x"] by linarith

lemma fl_nonneg: "0 \<le> x \<Longrightarrow> 0 \<le> fl x"
  using fl_pos[of x] by (cases "x = 0") auto

lemma ilog2_mono:
  assumes "0 < x" "x \<le> y"
  shows "ilog2 x \<le> ilog2 y"
proof (rule ccontr)
  assume "\<not> ilog2 x \<le> ilog2 y"
  then have "ilog2 y + 1 \<le> ilog2 x" by simp
  then have "(2::rat) powi (ilog2 y + 1) \<le> 2 powi ilog2 x" by (rule two_powi_mono)
  moreover have "y < 2 powi (ilog2 y + 1)" using ilog2_bounds[of y] assms by simp
  moreover have "2 powi ilog2 x \<le> x" using ilog2_bounds[of x] assms by simp
  ultimately show False using assms by linarith
qed

lemma fl_mono_pos:
  assumes "0 < x" "x \<le> y"
  shows "fl x \<le> fl y"
proof (cases "ilog2 x = ilog2 y")
  case True
  have y: "0 < y" using assms by simp
  have "x / 2 powi (ilog2 y - 52) \<le> y / 2 powi (ilog2 y - 52)"
    using assms(2) by (simp add: divide_right_mono)
  then have "py_round (x / 2 powi (ilog2 y - 52)) \<le> py_round (y / 2 powi (ilog2 y - 52))"
    by (rule py_round_mono)
  then have "(of_int (py_round (x / 2 powi (ilog2 y - 52))) :: rat) \<le> of_int (py_round (y / 2 powi (ilog2 y - 52)))"
    by (simp only: of_int_le_iff)
  then show ?thesis
    unfolding fl_pos_eq[OF assms(1)] fl_pos_eq[OF y] True
    by (simp)
next
  case False
  have y: "0 < y" using assms by simp
  from False ilog2_mono[OF assms] have "ilog2 x + 1 \<le> ilog2 y" by simp
  then have "(2::rat) powi (ilog2 x + 1) \<le> 2 powi ilog2 y" by (rule two_powi_mono)
  with fl_binade(2)[OF assms(1)] fl_binade(1)[OF y] show ?thesis by linarith
qed

lemma fl_mono: "0 \<le> x \<Longrightarrow> x \<le> y \<Longrightarrow> fl x \<le> fl y"
  using fl_mono_pos[of x y] fl_nonneg[of y] by (cases "x = 0") auto

lemma fl_upper:
  assumes "0 \<le> x"
  shows "fl x \<le> x * (1 + 1 / 2 ^ 53)"
proof (cases "x = 0")
  case True
  then show ?thesis by simp
next
  case False
  then have x: "0 < x" using assms by simp
  let ?e = "ilog2 x - 52"
  let ?m = "x / 2 powi ?e"
  have "of_int (py_round ?m) \<le> ?m + 1 / 2" using py_round_bounds[of ?m] by simp
  also have "\<dots> \<le> ?m + ?m / 2 ^ 53" using mant_bounds(1)[OF x] by simp
  finally have "of_int (py_round ?m) * 2 powi ?e \<le> (?m + ?m / 2 ^ 53) * 2 powi ?e"
    by (simp only: mult_le_cancel_right_pos two_powi_pos)
  also have "\<dots> = x * (1 + 1 / 2 ^ 53)" by (simp add: field_simps)
  finally show ?thesis unfolding fl_pos_eq[OF x] .
qed

lemma py_round_zero [simp]: "py_round 0 = 0"
  using py_round_of_int[of 0] by simp

lemma offset_zero: "py_round (float_mul (float_of_int 0) step) = 0"
  by (simp add: float_mul_def float_of_int_def)

lemma float_of_int_nonneg: "0 \<le> i \<Longrightarrow> 0 \<le> float_of_int i"
  by (simp add: float_of_int_def fl_nonneg)

lemma offset_mono:
  assumes "0 \<le> i" "i \<le> j" "0 \<le> step"
  shows "py_round (float_mul (float_of_int i) step) \<le> py_round (float_mul (float_of_int j) step)"
proof -
  have "float_of_int i \<le> float_of_int j"
    unfolding float_of_int_def using assms by (intro fl_mono) simp_all
  then have "float_of_int i * step \<le> float_of_int j * step"
    using assms(3) by (rule mult_right_mono)
  moreover have "0 \<le> float_of_int i * step"
    using float_of_int_nonneg[OF assms(1)] assms(3) by simp
  ultimately show ?thesis
    unfolding float_mul_def by (intro py_round_mono fl_mono)
qed

lemma offset_nonneg:
  assumes "0 \<le> i" "0 \<le> step"
  shows "0 \<le> py_round (float_mul (float_of_int i) step)"
  using offset_mono[of 0 i step] assms by (simp add: offset_zero)

lemma int_truediv_nonneg: "0 \<le> a \<Longrightarrow> 0 < b \<Longrightarrow> 0 \<le> int_truediv a b"
  by (simp add: int_truediv_def fl_nonneg)

lemma ulp3: "(1 + 1 / 2 ^ 53) * (1 + 1 / 2 ^ 53) * (1 + 1 / 2 ^ 53) \<le> (1 + 1 / 2 ^ 51 :: rat)"
  by simp

lemma offset_last_le:
  assumes d: "0 \<le> d" "d \<le> 3652058" and m: "0 < m"
  shows "py_round (float_mul (float_of_int m) (int_truediv d m)) \<le> d"
proof -
  let ?u = "1 + 1 / 2 ^ 53 :: rat"
  have u: "0 \<le> ?u" by simp
  have a: "float_of_int m \<le> of_int m * ?u"
    unfolding float_of_int_def using m by (intro fl_upper) simp
  have a0: "0 \<le> float_of_int m" using m by (simp add: float_of_int_nonneg)
  have q0: "(0::rat) \<le> of_int d / of_int m" using d m by simp
  have b: "int_truediv d m \<le> of_int d / of_int m * ?u"
    unfolding int_truediv_def using q0 by (rule fl_upper)
  have b0: "0 \<le> int_truediv d m" using d m by (simp add: int_truediv_nonneg)
  have "float_of_int m * int_truediv d m \<le> (of_int m * ?u) * (of_int d / of_int m * ?u)"
    using a b a0 b0 by (intro mult_mono) simp_all
  also have "\<dots> = of_int d * ?u * ?u" using m by (simp add: field_simps)
  finally have p: "float_of_int m * int_truediv d m \<le> of_int d * ?u * ?u" .
  have p0: "0 \<le> float_of_int m * int_truediv d m" using a0 b0 by simp
  have "float_mul (float_of_int m) (int_truediv d m) \<le> float_of_int m * int_truediv d m * ?u"
    unfolding float_mul_def using p0 by (rule fl_upper)
  also have "\<dots> \<le> (of_int d * ?u * ?u) * ?u" using p u by (rule mult_right_mono)
  also have "\<dots> = of_int d * (?u * ?u * ?u)" by (simp only: mult.assoc)
  also have "\<dots> \<le> of_int d * (1 + 1 / 2 ^ 51)"
    using d(1) ulp3 by (intro mult_left_mono) simp_all
  also have "\<dots> = of_int d + of_int d / 2 ^ 51" by (simp add: field_simps)
  also have "\<dots> \<le> of_int d + 3652058 / 2 ^ 51"
    using d(2) by (simp add: divide_right_mono)
  also have "\<dots> < of_int d + 1 / 2" by simp
  finally have "float_mul (float_of_int m) (int_truediv d m) < of_int d + 1 / 2" .
  moreover have "of_int (py_round (float_mul (float_of_int m) (int_truediv d m)))
      \<le> float_mul (float_of_int m) (int_truediv d m) + 1 / 2"
    using py_round_bounds by blast
  ultimately have "(of_int (py_round (float_mul (float_of_int m) (int_truediv d m))) :: rat) < of_int (d + 1)"
    by simp
  then have "py_round (float_mul (float_of_int m) (int_truediv d m)) < d + 1"
    by (simp only: of_int_less_iff)
  then show ?thesis by simp
qed

lemma offset_le:
  assumes "0 \<le> d" "d \<le> 3652058" "0 < m" "0 \<le> i" "i \<le> m"
  shows "py_round (float_mul (float_of_int i) (int_truediv d m)) \<le> d"
  using offset_mono[of i m "int_truediv d m"] offset_last_le[of d m] int_truediv_nonneg[of d m] assms
  by linarith

section \<open>Deduplication and the forced list\<close>

lemma dedup_loop_append: "dedup_loop ds seen out = out @ dedup_loop ds seen []"
proof (induction ds arbitrary: seen out)
  case Nil
  show ?case by simp
next
  case (Cons d ds)
  show ?case
    using Cons.IH[of "insert d seen" "out @ [d]"] Cons.IH[of "insert d seen" "[d]"] Cons.IH[of seen out]
    by simp
qed

lemma dedup_loop_Cons:
  "dedup_loop (d # ds) seen [] =
     (if d \<in> seen then dedup_loop ds seen [] else d # dedup_loop ds (insert d seen) [])"
  using dedup_loop_append[of ds "insert d seen" "[d]"] by simp

lemma set_dedup_loop: "set (dedup_loop ds seen []) = set ds - seen"
  by (induction ds arbitrary: seen) (auto simp: dedup_loop_Cons simp del: dedup_loop.simps(2))

lemma distinct_dedup_loop: "distinct (dedup_loop ds seen [])"
  by (induction ds arbitrary: seen) (auto simp: dedup_loop_Cons set_dedup_loop simp del: dedup_loop.simps(2))

lemma length_dedup_loop: "length (dedup_loop ds seen []) \<le> length ds"
proof (induction ds arbitrary: seen)
  case Nil
  show ?case by simp
next
  case (Cons d ds)
  show ?case using Cons.IH[of seen] Cons.IH[of "insert d seen"]
    by (simp add: dedup_loop_Cons del: dedup_loop.simps(2))
qed

lemma sorted_dedup_loop: "sorted ds \<Longrightarrow> sorted (dedup_loop ds seen [])"
  by (induction ds arbitrary: seen) (auto simp: dedup_loop_Cons set_dedup_loop simp del: dedup_loop.simps(2))

lemma strict_sorted_dedup_loop: "sorted ds \<Longrightarrow> sorted_wrt (<) (dedup_loop ds seen [])"
  using sorted_dedup_loop[of ds seen] distinct_dedup_loop[of ds seen]
  by (simp add: strict_sorted_iff)

lemma length_upto_int: "length [0..n - 1] = nat n"
  by simp

lemma forced_list:
  assumes "2 \<le> n"
  shows "(rounded_dates start step n)[0 := start, length (rounded_dates start step n) - 1 := e]
         = map (forced start e step n) [0..n - 1]"
proof (rule nth_equalityI)
  show "length ((rounded_dates start step n)[0 := start, length (rounded_dates start step n) - 1 := e])
        = length (map (forced start e step n) [0..n - 1])"
    by (simp add: rounded_dates_def)
next
  fix k
  assume "k < length ((rounded_dates start step n)[0 := start, length (rounded_dates start step n) - 1 := e])"
  then have k: "k < nat n" by (simp add: rounded_dates_def)
  then have nth: "[0..n - 1] ! k = int k" by (simp add: nth_upto)
  have len: "length (rounded_dates start step n) = nat n" by (simp add: rounded_dates_def)
  have r: "rounded_dates start step n ! k = start + py_round (float_mul (float_of_int (int k)) step)"
    using k nth by (simp add: rounded_dates_def)
  show "(rounded_dates start step n)[0 := start, length (rounded_dates start step n) - 1 := e] ! k
        = map (forced start e step n) [0..n - 1] ! k"
  proof (cases "k = nat n - 1")
    case True
    then have "int k = n - 1" using assms by simp
    then show ?thesis using k nth True by (simp add: len forced_def)
  next
    case False
    then have ne: "int k \<noteq> n - 1" using k by linarith
    show ?thesis
    proof (cases "k = 0")
      case True
      then show ?thesis using k nth ne False
        by (simp add: len forced_def offset_zero)
    next
      case k0: False
      then show ?thesis using k nth ne False r
        by (simp add: len forced_def)
    qed
  qed
qed

lemma forced_mono:
  assumes d: "start \<le> e" "e - start \<le> 3652058" and n: "2 \<le> n"
    and ij: "0 \<le> i" "i \<le> j" "j \<le> n - 1"
  shows "forced start e (int_truediv (e - start) (n - 1)) n i
         \<le> forced start e (int_truediv (e - start) (n - 1)) n j"
proof -
  let ?step = "int_truediv (e - start) (n - 1)"
  have s0: "0 \<le> ?step" using d n by (intro int_truediv_nonneg) simp_all
  show ?thesis
  proof (cases "j = n - 1")
    case True
    have "py_round (float_mul (float_of_int i) ?step) \<le> e - start"
      using d n ij by (intro offset_le) simp_all
    then show ?thesis using True by (simp add: forced_def)
  next
    case False
    then have "i \<noteq> n - 1" using ij by simp
    then show ?thesis using False offset_mono[OF ij(1) ij(2) s0] by (simp add: forced_def)
  qed
qed

lemma forced_bounds:
  assumes d: "start \<le> e" "e - start \<le> 3652058" and n: "2 \<le> n"
    and i: "0 \<le> i" "i \<le> n - 1"
  shows "start \<le> forced start e (int_truediv (e - start) (n - 1)) n i"
    and "forced start e (int_truediv (e - start) (n - 1)) n i \<le> e"
proof -
  let ?f = "forced start e (int_truediv (e - start) (n - 1)) n"
  have "?f 0 = start" using n by (simp add: forced_def offset_zero)
  moreover have "?f 0 \<le> ?f i" using d n i by (intro forced_mono) simp_all
  ultimately show "start \<le> ?f i" by simp
  have "?f (n - 1) = e" by (simp add: forced_def)
  moreover have "?f i \<le> ?f (n - 1)" using d n i by (intro forced_mono) simp_all
  ultimately show "?f i \<le> e" by simp
qed

lemma sorted_forced:
  assumes d: "start \<le> e" "e - start \<le> 3652058" and n: "2 \<le> n"
  shows "sorted (map (forced start e (int_truediv (e - start) (n - 1)) n) [0..n - 1])"
proof -
  let ?f = "forced start e (int_truediv (e - start) (n - 1)) n"
  have "sorted_wrt (\<lambda>i j. ?f i \<le> ?f j) [0..n - 1]"
  proof (rule sorted_wrt_mono_rel[where P = "(\<le>)"])
    show "sorted_wrt (\<le>) [0..n - 1]" using sorted_upto by simp
  next
    fix i j
    assume "i \<in> set [0..n - 1]" "j \<in> set [0..n - 1]" "i \<le> j"
    then show "?f i \<le> ?f j" using d n by (intro forced_mono) simp_all
  qed
  then show ?thesis by (simp add: sorted_map)
qed

lemma evenly_spaced_dates_general:
  assumes "start \<le> e" "3 \<le> n"
  shows "evenly_spaced_dates start e n =
     Inr (dedup_loop (map (forced start e (int_truediv (e - start) (n - 1)) n) [0..n - 1]) {} [])"
  using assms forced_list[of n start "int_truediv (e - start) (n - 1)" e]
  by (simp add: evenly_spaced_dates_def Let_def)

section \<open>Properties of the sampler\<close>

text \<open>
  C3. For every pair of dates with \<open>start \<le> end\<close>, \<open>evenly_spaced_dates start end 2\<close>
  is exactly the two-element list \<open>[start, end']\<close>: the case \<open>n = 2\<close> returns before
  any step is computed.
\<close>

theorem evenly_spaced_dates_two:
  "start \<le> end' \<Longrightarrow> evenly_spaced_dates start end' 2 = Inr [start, end']"
  by (simp add: evenly_spaced_dates_def)

theorem evenly_spaced_dates_two_witness:
  "(739252::int) \<le> 739261 \<and> evenly_spaced_dates 739252 739261 2 = Inr [739252, 739261]"
  using evenly_spaced_dates_two [of 739252 739261] by simp

text \<open>
  C9. For every pair of dates with \<open>start \<le> end\<close> and every \<open>n \<ge> 2\<close> the sampler returns
  a list, and every date of that list lies in the closed interval from \<open>start\<close> to
  \<open>end\<close>: no rounded offset falls before \<open>start\<close> or after \<open>end\<close>.
\<close>

theorem evenly_spaced_dates_within:
  assumes "is_datetime start" "is_datetime end'" "start \<le> end'" "2 \<le> n"
  shows "case evenly_spaced_dates start end' n of
           Inl e \<Rightarrow> False
         | Inr out \<Rightarrow> list_all (\<lambda>d. start \<le> d \<and> d \<le> end') out"
proof (cases "n = 2")
  case True
  then show ?thesis using assms by (simp add: evenly_spaced_dates_def)
next
  case False
  then have n: "3 \<le> n" using assms by simp
  have d: "end' - start \<le> 3652058" using assms by (simp add: is_datetime_def)
  let ?step = "int_truediv (end' - start) (n - 1)"
  let ?ds = "map (forced start end' ?step n) [0..n - 1]"
  have "\<forall>d \<in> set ?ds. start \<le> d \<and> d \<le> end'"
    using forced_bounds[OF assms(3) d assms(4)] by auto
  then have "\<forall>d \<in> set (dedup_loop ?ds {} []). start \<le> d \<and> d \<le> end'"
    by (simp only: set_dedup_loop Diff_empty)
  then show ?thesis
    using evenly_spaced_dates_general[OF assms(3) n] by (simp add: list_all_iff)
qed

theorem evenly_spaced_dates_within_witness:
  "is_datetime 739252 \<and> is_datetime 739282 \<and> (739252::int) \<le> 739282 \<and> (2::int) \<le> 5 \<and>
   (case evenly_spaced_dates 739252 739282 5 of
      Inl e \<Rightarrow> False
    | Inr out \<Rightarrow> list_all (\<lambda>d. 739252 \<le> d \<and> d \<le> 739282) out)"
  using evenly_spaced_dates_within [of 739252 739282 5] by (simp add: is_datetime_def)

text \<open>
  The contract of the sampler on every input but one family: for \<open>start \<le> end\<close> and
  \<open>n \<ge> 2\<close>, with \<open>n \<ge> 3\<close> or \<open>start < end\<close>, the result is strictly ascending,
  contains \<open>start\<close> and \<open>end\<close>, has at most \<open>n\<close> entries and no date twice.
\<close>

lemma evenly_spaced_dates_contract:
  assumes "is_datetime start" "is_datetime end'" "start \<le> end'" "2 \<le> n"
    and "3 \<le> n \<or> start < end'"
  shows "\<exists>out. evenly_spaced_dates start end' n = Inr out \<and> sorted_wrt (<) out \<and>
           start \<in> set out \<and> end' \<in> set out \<and> int (length out) \<le> n \<and> distinct out"
proof (cases "n = 2")
  case True
  then show ?thesis using assms by (simp add: evenly_spaced_dates_def)
next
  case False
  then have n: "3 \<le> n" using assms by simp
  have d: "end' - start \<le> 3652058" using assms by (simp add: is_datetime_def)
  let ?step = "int_truediv (end' - start) (n - 1)"
  let ?f = "forced start end' ?step n"
  let ?ds = "map ?f [0..n - 1]"
  let ?out = "dedup_loop ?ds {} []"
  have s: "sorted_wrt (<) ?out"
    using sorted_forced[OF assms(3) d assms(4)] by (rule strict_sorted_dedup_loop)
  have "?f 0 = start" using n by (simp add: forced_def offset_zero)
  moreover have "(0::int) \<in> set [0..n - 1]" using n by simp
  ultimately have "start \<in> set ?ds" by (metis image_eqI set_map)
  then have a: "start \<in> set ?out" by (simp only: set_dedup_loop Diff_empty)
  have "?f (n - 1) = end'" by (simp add: forced_def)
  moreover have "n - 1 \<in> set [0..n - 1]" using n by simp
  ultimately have "end' \<in> set ?ds" by (metis image_eqI set_map)
  then have b: "end' \<in> set ?out" by (simp only: set_dedup_loop Diff_empty)
  have "length ?out \<le> length ?ds" by (rule length_dedup_loop)
  then have l: "int (length ?out) \<le> n" using n by simp
  have "distinct ?out" by (rule distinct_dedup_loop)
  with s a b l show ?thesis using evenly_spaced_dates_general[OF assms(3) n] by simp
qed

text \<open>
  With three samples of a one-day interval the general path removes the repeated date.
\<close>

lemma evenly_spaced_dates_same_day_three:
  "evenly_spaced_dates (ymd2ord 2025 1 1) (ymd2ord 2025 1 1) 3 = Inr [ymd2ord 2025 1 1]"
  by (simp add: evenly_spaced_dates_def rounded_dates_def int_truediv_def float_mul_def upto.simps)

text \<open>
  C1. The sampler's result is strictly ascending, contains \<open>start\<close> and \<open>end\<close>, has at
  most \<open>n\<close> entries and no calendar date twice, for all \<open>start \<le> end\<close> and \<open>n \<ge> 2\<close>.
  At \<open>start = end\<close> and \<open>n = 2\<close> the early return skips the deduplication: the result
  lists the same date twice, so it is neither duplicate-free nor strictly ascending.
\<close>

theorem evenly_spaced_dates_same_day_two:
  "evenly_spaced_dates 739252 739252 2 = Inr [739252, 739252] \<and>
   \<not> distinct [739252, 739252 :: int] \<and> \<not> sorted_wrt (<) [739252, 739252 :: int]"
  by (simp add: evenly_spaced_dates_def)

text \<open>
  C2. \<open>evenly_spaced_dates\<close> at 2025-01-01, 2025-01-01 and \<open>n = 2\<close> is claimed to be the
  one-element list \<open>[2025-01-01]\<close>; the code returns the date twice.
\<close>

theorem evenly_spaced_dates_2025_01_01_twice:
  "evenly_spaced_dates (ymd2ord 2025 1 1) (ymd2ord 2025 1 1) 2
     = Inr [ymd2ord 2025 1 1, ymd2ord 2025 1 1]"
  by (simp add: evenly_spaced_dates_def)

lemma upper_strip_Nil: "upper U (strip U []) = []"
  by (simp add: upper_def strip_def rstrip_def lstrip_def)

section \<open>The accepted date texts\<close>

lemma match_year_iff:
  "match_year U s = Some (y, r) \<longleftrightarrow> (\<exists>yt. s = yt @ r \<and> year_text U yt y)"
proof
  assume "match_year U s = Some (y, r)"
  then show "\<exists>yt. s = yt @ r \<and> year_text U yt y"
    by (auto simp: match_year_def year_text_def split: list.splits option.splits)
next
  assume "\<exists>yt. s = yt @ r \<and> year_text U yt y"
  then show "match_year U s = Some (y, r)"
    by (auto simp: match_year_def year_text_def)
qed

lemma month_text_range: "month_text t m \<Longrightarrow> 1 \<le> m \<and> m \<le> 12"
  by (auto simp: month_text_def in_range_def)

lemma day_text_pos: "day_text U t d \<Longrightarrow> 1 \<le> d"
  by (auto simp: day_text_def in_range_def)

lemma match_month_imp:
  "match_month r2 = Some (m, r3) \<Longrightarrow> \<exists>mt. r2 = mt @ 45 # r3 \<and> month_text mt m"
proof (induction r2 rule: match_month.induct)
  case (1 a b c rest)
  show ?case
  proof (cases "a = 49 \<and> in_range 48 50 b \<and> c = 45")
    case True
    then have "m = 10 + int (b - 48)" "rest = r3" using 1 by simp_all
    moreover have "month_text [a, b] (10 + int (b - 48))"
      using True by (auto simp: month_text_def in_range_def intro!: exI[of _ "b - 48"])
    ultimately show ?thesis using True by (intro exI[of _ "[a, b]"]) simp
  next
    case n1: False
    show ?thesis
    proof (cases "a = 48 \<and> in_range 49 57 b \<and> c = 45")
      case True
      then have "m = int (b - 48)" "rest = r3" using 1 n1 by simp_all
      moreover have "month_text [a, b] (int (b - 48))"
        using True by (auto simp: month_text_def in_range_def intro!: exI[of _ "b - 48"])
      ultimately show ?thesis using True by (intro exI[of _ "[a, b]"]) simp
    next
      case n2: False
      then have c: "in_range 49 57 a \<and> b = 45" and "m = int (a - 48)" "c # rest = r3"
        using 1 n1 by (simp_all split: if_splits)
      moreover have "month_text [a] (int (a - 48))"
        using c by (auto simp: month_text_def in_range_def intro!: exI[of _ "a - 48"])
      ultimately show ?thesis by (intro exI[of _ "[a]"]) auto
    qed
  qed
next
  case (2 a b)
  then have c: "in_range 49 57 a \<and> b = 45" and "m = int (a - 48)" "r3 = []"
    by (simp_all split: if_splits)
  moreover have "month_text [a] (int (a - 48))"
    using c by (auto simp: month_text_def in_range_def intro!: exI[of _ "a - 48"])
  ultimately show ?case by (intro exI[of _ "[a]"]) auto
qed simp_all

lemma match_month_conv:
  assumes "month_text mt m"
  shows "match_month (mt @ 45 # r3) = Some (m, r3)"
proof -
  from assms consider
      (one) k where "in_range 1 9 k" "m = int k" "mt = [48 + k]"
    | (zero) k where "in_range 1 9 k" "m = int k" "mt = [48, 48 + k]"
    | (ten) k where "k \<le> 2" "m = 10 + int k" "mt = [49, 48 + k]"
    unfolding month_text_def by blast
  then show ?thesis
  proof cases
    case one
    then show ?thesis by (cases r3) (auto simp: in_range_def)
  next
    case zero
    then show ?thesis by (auto simp: in_range_def)
  next
    case ten
    then show ?thesis by (auto simp: in_range_def)
  qed
qed

lemma match_day_imp:
  assumes "match_day U r3 = Some (d, [])"
  shows "day_text U r3 d"
proof (cases r3)
  case Nil
  then show ?thesis using assms by simp
next
  case (Cons a r)
  show ?thesis
  proof (cases r)
    case Nil
    then have "in_range 49 57 a" "d = int (a - 48)" using assms Cons by (simp_all split: if_splits)
    then show ?thesis using Cons Nil
      by (auto simp: day_text_def in_range_def intro!: exI[of _ "a - 48"])
  next
    case c2: (Cons b rest)
    note r = Cons c2
    show ?thesis
    proof (cases "a = 51 \<and> in_range 48 49 b")
      case True
      then have "d = 30 + int (b - 48)" "rest = []" using assms r by (simp_all add: in_range_def)
      then show ?thesis using True r
        unfolding day_text_def in_range_def
        by (intro disjI2) (auto intro!: exI[of _ "b - 48"])
    next
      case n1: False
      show ?thesis
      proof (cases "in_range 49 50 a \<and> digit U b \<noteq> None")
        case True
        then obtain k where k: "digit U b = Some k" by auto
        then have "d = 10 * int (a - 48) + int k" "rest = []" using assms r n1 True by (simp_all add: in_range_def)
        then show ?thesis using True r k
          unfolding day_text_def in_range_def
          by (intro disjI2 disjI1 exI[of _ "a - 48"] exI[of _ b] exI[of _ k]) auto
      next
        case n2: False
        show ?thesis
        proof (cases "a = 48 \<and> in_range 49 57 b")
          case True
          then have "d = int (b - 48)" "rest = []" using assms r n1 n2 by (simp_all add: in_range_def)
          then show ?thesis using True r
            unfolding day_text_def in_range_def
            by (intro disjI1 exI[of _ "b - 48"]) auto
        next
          case n3: False
          have n4: "\<not> in_range 49 57 a" using assms r n1 n2 n3 by (auto simp: in_range_def split: if_splits)
          then have "a = 32 \<and> in_range 49 57 b" "d = int (b - 48)" "rest = []"
            using assms r n1 n2 n3 by (simp_all add: in_range_def split: if_splits)
          then show ?thesis using r
            unfolding day_text_def in_range_def
            by (intro disjI1 exI[of _ "b - 48"]) auto
        qed
      qed
    qed
  qed
qed

lemma match_day_conv:
  assumes "day_text U dt d"
  shows "match_day U dt = Some (d, [])"
proof -
  from assms consider
      (one) k where "in_range 1 9 k" "d = int k" "dt = [48 + k]"
    | (zero) k where "in_range 1 9 k" "d = int k" "dt = [48, 48 + k]"
    | (space) k where "in_range 1 9 k" "d = int k" "dt = [32, 48 + k]"
    | (tens) a b k where "in_range 1 2 a" "digit U b = Some k" "dt = [48 + a, b]" "d = 10 * int a + int k"
    | (thirty) k where "k \<le> 1" "dt = [51, 48 + k]" "d = 30 + int k"
    unfolding day_text_def by blast
  then show ?thesis
    by cases (auto simp: in_range_def)
qed

lemma strptime_iff: "strptime U s = Some x \<longleftrightarrow> date_text U s x"
proof
  assume a: "strptime U s = Some x"
  then obtain year r1 where y: "match_year U s = Some (year, r1)"
    by (auto simp: strptime_def split: option.splits)
  then obtain r2 where r1: "r1 = 45 # r2"
    using a by (auto simp: strptime_def split: option.splits list.splits if_splits)
  then obtain month r3 where m: "match_month r2 = Some (month, r3)"
    using a y by (auto simp: strptime_def split: option.splits)
  then obtain day where d: "match_day U r3 = Some (day, [])"
    and ok: "1 \<le> year" "year \<le> 9999" "day \<le> days_in_month year month"
    and x: "x = ymd2ord year month day"
    using a y r1 by (auto simp: strptime_def split: option.splits if_splits)
  from y obtain yt where yt: "s = yt @ r1" "year_text U yt year" by (auto simp: match_year_iff)
  from match_month_imp[OF m] obtain mt where mt: "r2 = mt @ 45 # r3" "month_text mt month" by blast
  have "s = yt @ [45] @ mt @ [45] @ r3" using yt r1 mt by simp
  then show "date_text U s x"
    unfolding date_text_def using yt(2) mt(2) match_day_imp[OF d] ok x by blast
next
  assume "date_text U s x"
  then obtain yt mt dt y m d where s: "s = yt @ [45] @ mt @ [45] @ dt"
    and t: "year_text U yt y" "month_text mt m" "day_text U dt d"
    and ok: "1 \<le> y" "y \<le> 9999" "d \<le> days_in_month y m" and x: "x = ymd2ord y m d"
    unfolding date_text_def by blast
  have "match_year U s = Some (y, 45 # mt @ 45 # dt)"
    using t(1) s by (auto simp: match_year_iff)
  moreover have "match_month (mt @ 45 # dt) = Some (m, dt)" using t(2) by (rule match_month_conv)
  moreover have "match_day U dt = Some (d, [])" using t(3) by (rule match_day_conv)
  ultimately show "strptime U s = Some x"
    using ok x month_text_range[OF t(2)] day_text_pos[OF t(3)]
    by (simp add: strptime_def)
qed

section \<open>Properties of the validator\<close>

text \<open>
  C5. \<open>validate_currency\<close> trims and uppercases its input; it returns that result exactly
  when the result has three characters, all alphabetic, and fails with an
  \<open>InvalidArgument\<close> error otherwise (an empty input gives an empty result).
\<close>

theorem validate_currency_spec:
  "case validate_currency U code field of
     Inr c \<Rightarrow> c = upper U (strip U code) \<and> length c = 3 \<and> list_all (isalpha_char U) c
   | Inl e \<Rightarrow> kind e = InvalidArgument \<and>
       \<not> (length (upper U (strip U code)) = 3 \<and> list_all (isalpha_char U) (upper U (strip U code)))"
proof (cases "code = []")
  case True
  then show ?thesis by (simp add: validate_currency_def upper_strip_Nil)
next
  case False
  then show ?thesis by (auto simp: validate_currency_def Let_def isalpha_def)
qed

lemma upper_strip_usd: "upper ascii_only (strip ascii_only (str '' usd '')) = str ''USD''"
  by (simp add: str_def upper_def strip_def rstrip_def lstrip_def isspace_def upper_char_def)

lemma isalpha_usd: "length (str ''USD'') = 3 \<and> list_all (isalpha_char ascii_only) (str ''USD'')"
  by (simp add: str_def isalpha_char_def)

theorem validate_currency_spec_witness:
  "validate_currency ascii_only (str '' usd '') (str ''From'') = Inr (str ''USD'')"
  using validate_currency_spec [of ascii_only "str '' usd ''" "str ''From''"] isalpha_usd
  by (cases "validate_currency ascii_only (str '' usd '') (str ''From'')")
     (simp_all add: upper_strip_usd)

text \<open>
  A date whose month and day are written without the leading zero is not in strict
  \<^verbatim>\<open>YYYY-MM-DD\<close> form, and \<open>parse_date\<close> accepts it.
\<close>

theorem parse_date_unpadded:
  "parse_date ascii_only (str ''2025-1-5'') (str ''date'') = Inr (ymd2ord 2025 1 5) \<and>
   \<not> strict_yyyy_mm_dd (str ''2025-1-5'')"
  by (simp add: parse_date_def strptime_def match_year_def digit_def str_def in_range_def
   days_in_month_def ymd2ord_def days_before_year_def days_before_month_def is_leap_def)

text \<open>
  C4, as amended. \<open>parse_date\<close> succeeds with the date \<open>x\<close> exactly when the whole string
  is a four-digit year, a hyphen, a month from 1 to 12 with or without a leading zero, a
  hyphen, and a day with or without a leading zero (or with a leading space), and year,
  month and day are the calendar date \<open>x\<close> of a year from 1 to 9999; every other string
  fails with an \<open>InvalidArgument\<close> error.
\<close>

theorem parse_date_accepts:
  "(parse_date U s field = Inr x \<longleftrightarrow> date_text U s x) \<and>
   (case parse_date U s field of Inr y \<Rightarrow> True | Inl e \<Rightarrow> kind e = InvalidArgument)"
  using strptime_iff[of U s x] by (auto simp: parse_date_def split: option.splits)

section \<open>The client, the pipeline and the loop\<close>

lemma call_service_dict:
  assumes "post (world st) url key = (Response resp, w)" "ok resp" "json_body resp = Some (JDict kvs)"
  shows "call_service post url key st =
     (if truthy (dict_get kvs (str ''error''))
      then (Inl (ServiceFailure (dict_get kvs (str ''error''))),
            logger_error url (ServiceFailure (dict_get kvs (str ''error''))) (st\<lparr>world := w\<rparr>))
      else (Inr (JDict kvs), st\<lparr>world := w\<rparr>))"
  using assms by (simp add: call_service_def Let_def)

lemma files_logger_error [simp]: "files (logger_error url e st) = files st"
  by (simp add: logger_error_def)

lemma files_py_print [simp]: "files (py_print l st) = files st"
  by (simp add: py_print_def)

lemma files_warn [simp]: "files (warn_if_out_of_range d en st) = files st"
  by (simp add: warn_if_out_of_range_def)

lemma files_call_service [simp]: "files (snd (call_service post url key st)) = files st"
  by (simp add: call_service_def Let_def split: prod.splits post_result.splits option.splits json.splits)

lemma call_service_files:
  assumes "call_service post url key st = (r, st')"
  shows "files st' = files st"
  using files_call_service[of post url key st] assms by simp

lemma save_json_Inl:
  assumes "save_json write payload f t ds st = (Inl x, st')"
  shows "\<exists>y. x = OtherException y"
  using assms by (auto simp: save_json_def Let_def split: prod.splits write_result.splits)

lemma run_one_SystemExit:
  assumes "run_one U post write fc tc ds base key warn st = (Inl (SystemExit e), st')"
  shows "files st' = files st"
proof (cases "validate_currency U fc (str ''From'')")
  case (Inl e)
  then show ?thesis using assms by (auto simp: run_one_def)
next
  case f: (Inr f)
  show ?thesis
  proof (cases "validate_currency U tc (str ''To'')")
    case (Inl e)
    then show ?thesis using assms f by (auto simp: run_one_def)
  next
    case t: (Inr t)
    show ?thesis
    proof (cases "parse_date U ds (str ''date'')")
      case (Inl e)
      then show ?thesis using assms f t by (auto simp: run_one_def)
    next
      case d: (Inr d)
      let ?st1 = "py_print (Requesting (build_url base f t ds)) (warn_if_out_of_range d warn st)"
      obtain r2 st2 where cs: "call_service post (build_url base f t ds) key ?st1 = (r2, st2)"
        by (cases "call_service post (build_url base f t ds) key ?st1")
      have f2: "files st2 = files st" using call_service_files[OF cs] by simp
      show ?thesis
      proof (cases r2)
        case (Inl e2)
        then have "st' = st2" using assms f t d cs by (simp add: run_one_def Let_def)
        then show ?thesis using f2 by simp
      next
        case (Inr payload)
        obtain r3 st3 where sj: "save_json write payload f t ds st2 = (r3, st3)"
          by (cases "save_json write payload f t ds st2")
        show ?thesis
        proof (cases r3)
          case (Inl x)
          then obtain y where "x = OtherException y" using save_json_Inl sj by blast
          then have "fst (run_one U post write fc tc ds base key warn st) = Inl (OtherException y)"
            using f t d cs Inr sj Inl by (simp add: run_one_def Let_def)
          then show ?thesis using assms by simp
        next
          case r: (Inr p)
          then have "fst (run_one U post write fc tc ds base key warn st) = Inr ()"
            using f t d cs Inr sj by (simp add: run_one_def Let_def)
          then show ?thesis using assms by simp
        qed
      qed
    qed
  qed
qed





section \<open>Properties of the service client\<close>

text \<open>
  An envelope whose error field is the number 1 makes \<open>call_service\<close> fail with a
  \<open>ServiceError\<close>, although that field is not a non-empty string.
\<close>

theorem call_service_numeric_error:
  "fst (call_service (replies (JDict [(str ''error'', JInt 1)])) (str ''u'') (str ''k'') empty_state)
     = Inl (ServiceFailure (JInt 1)) \<and>
   kind (ServiceFailure (JInt 1)) = ServiceError \<and>
   dict_get [(str ''error'', JInt 1)] (str ''error'') = JInt 1"
  by (simp add: call_service_def replies_def empty_state_def dict_get_def logger_error_def Let_def)

text \<open>
  C6, as amended. When the response has a success status (\<^verbatim>\<open>resp.ok\<close>) and its body is a
  JSON object, \<open>call_service\<close> fails with a \<open>ServiceError\<close> carrying the value of the error
  field exactly when that value is truthy (a non-empty string, a non-zero number,
  \<^verbatim>\<open>true\<close>, a non-empty array or object), and otherwise returns the envelope unchanged.
\<close>

theorem call_service_envelope:
  assumes "post (world st) url key = (Response resp, w)" "ok resp" "json_body resp = Some (JDict kvs)"
  shows "fst (call_service post url key st) =
     (if truthy (dict_get kvs (str ''error''))
      then Inl (ServiceFailure (dict_get kvs (str ''error'')))
      else Inr (JDict kvs))"
  using call_service_dict[where post = post and st = st and url = url and key = key, OF assms]
  by simp

theorem call_service_envelope_witness:
  "replies invalid_currency_envelope (world empty_state) (str ''u'') (str ''k'')
     = (Response \<lparr>ok = True, status_code = 200, text_body = [],
                   json_body = Some invalid_currency_envelope\<rparr>, ()) \<and>
   fst (call_service (replies invalid_currency_envelope) (str ''u'') (str ''k'') empty_state)
     = Inl (ServiceFailure (JStr (str ''invalid currency'')))"
proof -
  have h: "replies invalid_currency_envelope (world empty_state) (str ''u'') (str ''k'')
     = (Response \<lparr>ok = True, status_code = 200, text_body = [],
                   json_body = Some invalid_currency_envelope\<rparr>, ())"
    by (simp add: replies_def)
  have "fst (call_service (replies invalid_currency_envelope) (str ''u'') (str ''k'') empty_state)
     = (if truthy (dict_get [(str ''error'', JStr (str ''invalid currency'')), (str ''data'', JNull)] (str ''error''))
        then Inl (ServiceFailure (dict_get [(str ''error'', JStr (str ''invalid currency'')), (str ''data'', JNull)] (str ''error'')))
        else Inr (JDict [(str ''error'', JStr (str ''invalid currency'')), (str ''data'', JNull)]))"
    by (rule call_service_envelope
          [where post = "replies invalid_currency_envelope" and st = empty_state, OF h])
       (simp_all add: invalid_currency_envelope_def)
  then show ?thesis using h by (simp add: dict_get_def str_def)
qed

text \<open>
  A JSON object without the key \<^verbatim>\<open>"error"\<close> that comes with status 500 is not a
  success: \<open>call_service\<close> fails with the HTTP error before it looks at the body.
\<close>

theorem call_service_http_error_without_key:
  "fst (call_service (replies_status 500 (JDict [(str ''data'', JInt 1)])) (str ''u'') (str ''k'')
          empty_state)
     = Inl (HttpFailure 500 []) \<and>
   map_of [(str ''data'', JInt 1)] (str ''error'') = None"
  by (simp add: call_service_def replies_status_def empty_state_def logger_error_def Let_def str_def)

text \<open>
  C10, as amended. A response with a success status (\<^verbatim>\<open>resp.ok\<close>) whose body is a JSON
  object without the key \<^verbatim>\<open>"error"\<close>, or whose error value is falsy (such as
  \<^verbatim>\<open>null\<close>), is a success: \<open>call_service\<close> returns the payload and logs nothing.
\<close>

theorem call_service_falsy_error:
  assumes "post (world st) url key = (Response resp, w)" "ok resp" "json_body resp = Some (JDict kvs)"
    and "case map_of kvs (str ''error'') of None \<Rightarrow> True | Some v \<Rightarrow> \<not> truthy v"
  shows "call_service post url key st = (Inr (JDict kvs), st\<lparr>world := w\<rparr>)"
proof -
  have "\<not> truthy (dict_get kvs (str ''error''))"
    using assms(4) by (simp add: dict_get_def split: option.splits)
  then show ?thesis
    using call_service_dict[where post = post and st = st and url = url and key = key, OF assms(1-3)]
    by simp
qed

theorem call_service_falsy_error_witness:
  "replies (JDict [(str ''data'', JInt 1)]) (world empty_state) (str ''u'') (str ''k'')
     = (Response \<lparr>ok = True, status_code = 200, text_body = [],
                   json_body = Some (JDict [(str ''data'', JInt 1)])\<rparr>, ()) \<and>
   map_of [(str ''data'', JInt 1)] (str ''error'') = None \<and>
   call_service (replies (JDict [(str ''data'', JInt 1)])) (str ''u'') (str ''k'') empty_state
     = (Inr (JDict [(str ''data'', JInt 1)]), empty_state)"
proof -
  have h: "replies (JDict [(str ''data'', JInt 1)]) (world empty_state) (str ''u'') (str ''k'')
     = (Response \<lparr>ok = True, status_code = 200, text_body = [],
                   json_body = Some (JDict [(str ''data'', JInt 1)])\<rparr>, ())"
    by (simp add: replies_def)
  have m: "map_of [(str ''data'', JInt 1)] (str ''error'') = None" by (simp add: str_def)
  have "call_service (replies (JDict [(str ''data'', JInt 1)])) (str ''u'') (str ''k'') empty_state
     = (Inr (JDict [(str ''data'', JInt 1)]), empty_state\<lparr>world := ()\<rparr>)"
    by (rule call_service_falsy_error
          [where post = "replies (JDict [(str ''data'', JInt 1)])" and st = empty_state, OF h])
       (simp_all add: str_def)
  then show ?thesis using h m by simp
qed

section \<open>Properties of the orchestrator\<close>

text \<open>
  C7. When a single query fails at any stage (validation, network, HTTP status, JSON
  decoding, envelope shape, service error), that is with a \<^verbatim>\<open>SystemExit\<close>, no file is
  written: the files after \<open>run_one\<close> are the files before it.
\<close>

theorem run_one_failure_no_file:
  assumes "fst (run_one U post write fc tc ds base key warn st) = Inl (SystemExit e)"
  shows "files (snd (run_one U post write fc tc ds base key warn st)) = files st"
proof -
  obtain r st' where ro: "run_one U post write fc tc ds base key warn st = (r, st')"
    by (cases "run_one U post write fc tc ds base key warn st")
  then have "run_one U post write fc tc ds base key warn st = (Inl (SystemExit e), st')"
    using assms by simp
  then have "files st' = files st" by (rule run_one_SystemExit)
  then show ?thesis using ro by simp
qed

lemma validate_usd: "validate_currency ascii_only (str ''USD'') f = Inr (str ''USD'')"
  by (simp add: validate_currency_def str_def upper_def strip_def rstrip_def lstrip_def isspace_def
      upper_char_def isalpha_def isalpha_char_def)

lemma validate_eur: "validate_currency ascii_only (str ''EUR'') f = Inr (str ''EUR'')"
  by (simp add: validate_currency_def str_def upper_def strip_def rstrip_def lstrip_def isspace_def
      upper_char_def isalpha_def isalpha_char_def)

lemma parse_2025_06_01: "parse_date ascii_only (str ''2025-06-01'') f = Inr (ymd2ord 2025 6 1)"
  by (simp add: parse_date_def strptime_def match_year_def digit_def str_def in_range_def
   days_in_month_def ymd2ord_def days_before_year_def days_before_month_def is_leap_def)

lemma call_invalid_currency:
  "fst (call_service (replies invalid_currency_envelope) url key st)
     = Inl (ServiceFailure (JStr (str ''invalid currency'')))"
  by (simp add: call_service_def replies_def invalid_currency_envelope_def dict_get_def str_def Let_def)

lemma run_one_invalid_currency:
  "fst (run_one ascii_only (replies invalid_currency_envelope) utf8_files (str ''USD'') (str ''EUR'')
          (str ''2025-06-01'') base key False st)
     = Inl (SystemExit (ServiceFailure (JStr (str ''invalid currency''))))"
  using call_invalid_currency[of "build_url base (str ''USD'') (str ''EUR'') (str ''2025-06-01'')" key
      "py_print (Requesting (build_url base (str ''USD'') (str ''EUR'') (str ''2025-06-01'')))
         (warn_if_out_of_range (ymd2ord 2025 6 1) False st)"]
  by (auto simp add: run_one_def validate_usd validate_eur parse_2025_06_01 Let_def
        split: prod.splits sum.splits)

theorem run_one_failure_no_file_witness:
  "fst (run_one ascii_only (replies invalid_currency_envelope) utf8_files (str ''USD'') (str ''EUR'')
          (str ''2025-06-01'') (str ''http://localhost:8080'') (str ''EXAMPLE_API_KEY'') False empty_state)
     = Inl (SystemExit (ServiceFailure (JStr (str ''invalid currency'')))) \<and>
   files (snd (run_one ascii_only (replies invalid_currency_envelope) utf8_files (str ''USD'') (str ''EUR'')
          (str ''2025-06-01'') (str ''http://localhost:8080'') (str ''EXAMPLE_API_KEY'') False empty_state))
     = files empty_state"
  using run_one_failure_no_file [OF run_one_invalid_currency] run_one_invalid_currency
  by blast





















end
